theory Spec2Isabelle
  imports Complex_Main "HOL-Library.AList" "HOL-Library.Multiset"
begin

section \<open>JavaScript numbers\<close>

text \<open>
  A JavaScript \<^verbatim>\<open>number\<close> is modelled as an exact real extended with the two
  infinities and NaN.  The rounding of IEEE doubles, their overflow and the sign of zero
  are not modelled: finite arithmetic is exact.  What is kept is what decides the library's
  control flow: every comparison with NaN is false, \<^verbatim>\<open>0/0\<close> and
  \<^verbatim>\<open>Infinity - Infinity\<close> are NaN, and NaN is absorbing.
\<close>

datatype jsnum = Fin real | PInf | NInf | NaN

fun js_abs :: "jsnum \<Rightarrow> jsnum" where
  "js_abs (Fin x) = Fin \<bar>x\<bar>"
| "js_abs PInf = PInf"
| "js_abs NInf = PInf"
| "js_abs NaN = NaN"

fun js_neg :: "jsnum \<Rightarrow> jsnum" where
  "js_neg (Fin x) = Fin (- x)"
| "js_neg PInf = NInf"
| "js_neg NInf = PInf"
| "js_neg NaN = NaN"

fun js_add :: "jsnum \<Rightarrow> jsnum \<Rightarrow> jsnum" where
  "js_add NaN _ = NaN"
| "js_add _ NaN = NaN"
| "js_add (Fin x) (Fin y) = Fin (x + y)"
| "js_add PInf NInf = NaN"
| "js_add NInf PInf = NaN"
| "js_add PInf _ = PInf"
| "js_add _ PInf = PInf"
| "js_add NInf _ = NInf"
| "js_add _ NInf = NInf"

definition js_sub :: "jsnum \<Rightarrow> jsnum \<Rightarrow> jsnum" where
  "js_sub a b = js_add a (js_neg b)"

fun js_mul :: "jsnum \<Rightarrow> jsnum \<Rightarrow> jsnum" where
  "js_mul NaN _ = NaN"
| "js_mul _ NaN = NaN"
| "js_mul (Fin x) (Fin y) = Fin (x * y)"
| "js_mul (Fin x) PInf = (if x = 0 then NaN else if 0 < x then PInf else NInf)"
| "js_mul (Fin x) NInf = (if x = 0 then NaN else if 0 < x then NInf else PInf)"
| "js_mul PInf (Fin y) = (if y = 0 then NaN else if 0 < y then PInf else NInf)"
| "js_mul NInf (Fin y) = (if y = 0 then NaN else if 0 < y then NInf else PInf)"
| "js_mul PInf PInf = PInf"
| "js_mul NInf NInf = PInf"
| "js_mul PInf NInf = NInf"
| "js_mul NInf PInf = NInf"

text \<open>
  Division is written out, because HOL's \<open>x / 0\<close> is \<open>0\<close> while JavaScript's
  \<^verbatim>\<open>0/0\<close> is NaN and \<^verbatim>\<open>x/0\<close> is an infinity.
\<close>

fun js_div :: "jsnum \<Rightarrow> jsnum \<Rightarrow> jsnum" where
  "js_div NaN _ = NaN"
| "js_div _ NaN = NaN"
| "js_div (Fin x) (Fin y) =
     (if y = 0 then (if x = 0 then NaN else if 0 < x then PInf else NInf) else Fin (x / y))"
| "js_div (Fin x) PInf = Fin 0"
| "js_div (Fin x) NInf = Fin 0"
| "js_div PInf (Fin y) = (if 0 \<le> y then PInf else NInf)"
| "js_div NInf (Fin y) = (if 0 \<le> y then NInf else PInf)"
| "js_div PInf PInf = NaN"
| "js_div PInf NInf = NaN"
| "js_div NInf PInf = NaN"
| "js_div NInf NInf = NaN"

text \<open>\<^verbatim>\<open>a < b\<close> and \<^verbatim>\<open>a > b\<close>: false as soon as one side is NaN.\<close>

fun js_lt :: "jsnum \<Rightarrow> jsnum \<Rightarrow> bool" where
  "js_lt NaN _ = False"
| "js_lt _ NaN = False"
| "js_lt (Fin x) (Fin y) = (x < y)"
| "js_lt _ NInf = False"
| "js_lt PInf _ = False"
| "js_lt NInf _ = True"
| "js_lt _ PInf = True"

definition js_gt :: "jsnum \<Rightarrow> jsnum \<Rightarrow> bool" where
  "js_gt a b = js_lt b a"

text \<open>\<^verbatim>\<open>Math.max(a, b)\<close> and \<^verbatim>\<open>Math.min(a, b)\<close>: NaN if either argument is.\<close>

fun js_max :: "jsnum \<Rightarrow> jsnum \<Rightarrow> jsnum" where
  "js_max NaN _ = NaN"
| "js_max _ NaN = NaN"
| "js_max a b = (if js_lt a b then b else a)"

fun js_min :: "jsnum \<Rightarrow> jsnum \<Rightarrow> jsnum" where
  "js_min NaN _ = NaN"
| "js_min _ NaN = NaN"
| "js_min a b = (if js_lt b a then b else a)"

text \<open>\<^verbatim>\<open>Math.min(...xs)\<close>: \<^verbatim>\<open>Infinity\<close> for no argument.\<close>

definition js_min_list :: "jsnum list \<Rightarrow> jsnum" where
  "js_min_list xs = fold (\<lambda>x m. js_min m x) xs PInf"

section \<open>Records and their flattening\<close>

text \<open>
  The values a record can hold.  A leaf is anything whose \<^verbatim>\<open>typeof\<close> is not
  \<^verbatim>\<open>"object"\<close>, or \<^verbatim>\<open>null\<close>; the leaves here are those of data read from JSON,
  and \<^verbatim>\<open>undefined\<close>.  An object is the list of its own enumerable properties in the
  order \<^verbatim>\<open>Object.keys\<close> reports them (the keys of one object are pairwise different);
  an array is the list of its elements, whose keys are the decimal indices.  Values are
  finite trees: objects that contain themselves are not representable.  Two leaves that
  are not both numbers are \<^verbatim>\<open>===\<close> exactly when they are equal here.  A property
  whose name is a member of \<^verbatim>\<open>Object.prototype\<close> (such as \<^verbatim>\<open>__proto__\<close>) is outside
  the model.
\<close>

datatype leaf = LUndefined | LNull | LBool bool | LNum jsnum | LStr string

datatype jsval = Leaf leaf | JObj "(string \<times> jsval) list" | JArr "jsval list"

type_synonym jsrecord = "(string \<times> jsval) list"

type_synonym flat = "(string \<times> leaf) list"

text \<open>The decimal string of an array index and, further on, of a position in a cache key.\<close>

definition digit_char :: "nat \<Rightarrow> char" where
  "digit_char d = ''0123456789'' ! d"

fun string_of_nat :: "nat \<Rightarrow> string" where
  "string_of_nat n =
     (if n < 10 then [digit_char n] else string_of_nat (n div 10) @ [digit_char (n mod 10)])"

declare string_of_nat.simps [simp del]

definition string_of_int :: "int \<Rightarrow> string" where
  "string_of_int i = (if i < 0 then CHR ''-'' # string_of_nat (nat (- i)) else string_of_nat (nat i))"

text \<open>\<^verbatim>\<open>prefix ? `${prefix}.${key}` : key\<close>: the empty prefix is falsy.\<close>

definition fullKey :: "string \<Rightarrow> string \<Rightarrow> string" where
  "fullKey prefix key = (if prefix = [] then key else prefix @ ''.'' @ key)"

text \<open>\<^verbatim>\<open>Object.assign(acc, src)\<close>: the properties of \<open>src\<close> are written into \<open>acc\<close> in
  order; a key already present keeps its place and takes the new value.\<close>

definition assign :: "flat \<Rightarrow> flat \<Rightarrow> flat" where
  "assign acc src = fold (\<lambda>(k, v) a. AList.update k v a) src acc"

text \<open>
  \<^verbatim>\<open>flattenObject(obj, prefix)\<close> is a \<^verbatim>\<open>reduce\<close> over \<^verbatim>\<open>Object.keys(obj)\<close>
  starting from the empty object.  \<open>flattenKeys\<close> is that reduce on an object's properties,
  \<open>flattenElems\<close> the same reduce on an array's elements (with the index as the key), and
  \<open>flattenStep\<close> the body of the callback for one property of value \<open>v\<close>.
\<close>

fun flattenStep :: "jsval \<Rightarrow> string \<Rightarrow> flat \<Rightarrow> flat"
  and flattenKeys :: "(string \<times> jsval) list \<Rightarrow> string \<Rightarrow> flat \<Rightarrow> flat"
  and flattenElems :: "jsval list \<Rightarrow> nat \<Rightarrow> string \<Rightarrow> flat \<Rightarrow> flat" where
  "flattenStep (Leaf l) fk acc = AList.update fk l acc"
| "flattenStep (JObj kvs) fk acc = assign acc (flattenKeys kvs fk [])"
| "flattenStep (JArr vs) fk acc = assign acc (flattenElems vs 0 fk [])"
| "flattenKeys [] prefix acc = acc"
| "flattenKeys ((key, v) # kvs) prefix acc =
     flattenKeys kvs prefix (flattenStep v (fullKey prefix key) acc)"
| "flattenElems [] i prefix acc = acc"
| "flattenElems (v # vs) i prefix acc =
     flattenElems vs (Suc i) prefix (flattenStep v (fullKey prefix (string_of_nat i)) acc)"

definition flattenObject :: "jsrecord \<Rightarrow> flat" where
  "flattenObject obj = flattenKeys obj [] []"

subsection \<open>The flattening cache\<close>

text \<open>
  \<^verbatim>\<open>flattenCache\<close> is a module-level \<^verbatim>\<open>WeakMap\<close> from object identity to the flattened
  object.  Objects are addresses into a heap of records.  \<^verbatim>\<open>if (!flattened)\<close> tests for
  a missing entry: a flattened object, even an empty one, is truthy.
\<close>

type_synonym ref = nat

definition getFlattenedObject ::
  "(ref \<Rightarrow> jsrecord) \<Rightarrow> (ref \<rightharpoonup> flat) \<Rightarrow> ref \<Rightarrow> flat \<times> (ref \<rightharpoonup> flat)" where
  "getFlattenedObject heap fc obj =
     (case fc obj of
        None \<Rightarrow> (let flattened = flattenObject (heap obj) in (flattened, fc(obj \<mapsto> flattened)))
      | Some flattened \<Rightarrow> (flattened, fc))"

text \<open>A cache is consistent with a heap when every entry is the flattening of the record
  stored at its address: the state the cache is in as long as records are not mutated after
  they were first flattened.\<close>

definition cache_consistent :: "(ref \<Rightarrow> jsrecord) \<Rightarrow> (ref \<rightharpoonup> flat) \<Rightarrow> bool" where
  "cache_consistent heap fc = (\<forall>r f. fc r = Some f \<longrightarrow> f = flattenObject (heap r))"

section \<open>The default distance\<close>

text \<open>\<^verbatim>\<open>flat[key]\<close>: \<^verbatim>\<open>undefined\<close> for a missing key.\<close>

definition getProp :: "flat \<Rightarrow> string \<Rightarrow> leaf" where
  "getProp fl key = (case map_of fl key of None \<Rightarrow> LUndefined | Some v \<Rightarrow> v)"

text \<open>\<^verbatim>\<open>new Set([...ks])\<close> enumerates the first occurrence of each key, in order.\<close>

definition newSet :: "string list \<Rightarrow> string list" where
  "newSet ks = fold (\<lambda>k acc. if k \<in> set acc then acc else acc @ [k]) ks []"

text \<open>The penalty added to the running sum for two values that are both defined.\<close>

fun penalty :: "leaf \<Rightarrow> leaf \<Rightarrow> jsnum" where
  "penalty (LNum a) (LNum b) =
     (let maxVal = js_max (js_abs a) (js_abs b)
      in if js_gt maxVal (Fin 0) then js_div (js_abs (js_sub a b)) maxVal else Fin 0)"
| "penalty val1 val2 = (if val1 = val2 then Fin 0 else Fin 1)"

text \<open>One iteration of the loop over \<^verbatim>\<open>allKeys\<close>, on the pair
  \<^verbatim>\<open>(distance, validComparisons)\<close>.\<close>

definition distanceStep :: "flat \<Rightarrow> flat \<Rightarrow> string \<Rightarrow> jsnum \<times> nat \<Rightarrow> jsnum \<times> nat" where
  "distanceStep flat1 flat2 key st =
     (let val1 = getProp flat1 key; val2 = getProp flat2 key
      in if val1 = LUndefined \<or> val2 = LUndefined then (js_add (fst st) (Fin 1), snd st)
         else (js_add (fst st) (penalty val1 val2), Suc (snd st)))"

definition flatDistance :: "flat \<Rightarrow> flat \<Rightarrow> jsnum" where
  "flatDistance flat1 flat2 =
     (let allKeys = newSet (map fst flat1 @ map fst flat2);
          st = fold (distanceStep flat1 flat2) allKeys (Fin 0, 0)
      in if 0 < snd st then js_div (fst st) (Fin (real (length allKeys))) else Fin 1)"

definition defaultDistance :: "jsrecord \<Rightarrow> jsrecord \<Rightarrow> jsnum" where
  "defaultDistance obj1 obj2 = flatDistance (flattenObject obj1) (flattenObject obj2)"

section \<open>Completeness\<close>

definition calculateCompleteness :: "jsrecord \<Rightarrow> jsnum" where
  "calculateCompleteness obj =
     (let fl = flattenObject obj;
          definedValues = filter (\<lambda>v. v \<noteq> LUndefined \<and> v \<noteq> LNull) (map snd fl)
      in js_div (Fin (real (length definedValues))) (Fin (real (length (map fst fl)))))"

section \<open>Options, errors and the environment\<close>

text \<open>
  \<^verbatim>\<open>SelectorOptions\<close>.  An optional field is an \<open>option\<close>, \<open>None\<close> for a field that is
  \<^verbatim>\<open>undefined\<close>.  The two counts are integers and the weight is a real: option values
  that are NaN, infinite or, for the counts, not integral are outside the model.  Records
  are passed by reference: an item is the address of its record in a heap, and
  \<^verbatim>\<open>indexOf\<close> compares addresses, as \<^verbatim>\<open>===\<close> on objects does.
\<close>

record options =
  numExamples :: int
  sampleSize :: "int option"
  prioritizeComplete :: "bool option"
  completenessWeight :: "real option"
  distanceFunction :: "(ref \<Rightarrow> ref \<Rightarrow> jsnum) option"

text \<open>
  The library throws one class of error, \<^verbatim>\<open>PickassoError\<close>, with one of three
  messages.  \<open>UndefinedPick\<close> is not an error of the library: it marks the runs in which
  the initial pick reads past the end of the working set, which needs a draw of
  \<^verbatim>\<open>Math.random\<close> outside \<open>[0, 1)\<close> or a shuffle that loses elements.
\<close>

datatype error = PickassoError string | UndefinedPick

text \<open>
  What the run takes from its environment: the draw of \<^verbatim>\<open>Math.random\<close> for the first
  pick, the draws of the reservoir loop (one for each index), and the order in which
  \<^verbatim>\<open>[...items].sort(() => 0.5 - Math.random())\<close> leaves the items.  A sort with a
  comparator that ignores its arguments leaves an order that depends on the engine's
  algorithm and on the draws; the model takes that order from the environment.
  \<open>env_ok\<close> is the contract of the two built-ins: \<^verbatim>\<open>Math.random\<close> draws from
  \<open>[0, 1)\<close>, and \<^verbatim>\<open>sort\<close> permutes.
\<close>

record env =
  randomFirst :: real
  shuffle :: "ref list \<Rightarrow> ref list"
  reservoirRandom :: "nat \<Rightarrow> real"

definition env_ok :: "env \<Rightarrow> bool" where
  "env_ok e =
     (0 \<le> randomFirst e \<and> randomFirst e < 1 \<and> (\<forall>xs. mset (shuffle e xs) = mset xs))"

definition validateOptions :: "options \<Rightarrow> error option" where
  "validateOptions opts =
     (if (case completenessWeight opts of None \<Rightarrow> False | Some w \<Rightarrow> w < 0 \<or> w > 1)
      then Some (PickassoError ''completenessWeight must be between 0 and 1'')
      else if (case sampleSize opts of None \<Rightarrow> False | Some s \<Rightarrow> s \<le> 0)
      then Some (PickassoError ''sampleSize must be positive'')
      else None)"

section \<open>Sampling\<close>

text \<open>
  \<^verbatim>\<open>getEfficientSample\<close> is only called with \<^verbatim>\<open>items.length > sampleSize\<close>, and
  the sample size is positive there (validated when given, and else the minimum of 1000
  and the length of a non-empty collection), so it is a natural number in the samplers.
  An index \<open>j\<close> below 0 (outside the contract of \<^verbatim>\<open>Math.random\<close>) would write a
  property that is not an element; the reservoir's elements are unchanged then.
\<close>

definition reservoirStep :: "(nat \<Rightarrow> real) \<Rightarrow> ref list \<Rightarrow> nat \<Rightarrow> nat \<Rightarrow> ref list \<Rightarrow> ref list" where
  "reservoirStep rnd items sSize i reservoir =
     (let j = \<lfloor>rnd i * real (i + 1)\<rfloor>
      in if 0 \<le> j \<and> j < int sSize then reservoir[nat j := items ! i] else reservoir)"

definition reservoirSample :: "(nat \<Rightarrow> real) \<Rightarrow> ref list \<Rightarrow> nat \<Rightarrow> ref list" where
  "reservoirSample rnd items sSize =
     fold (reservoirStep rnd items sSize) [sSize..<length items] (take sSize items)"

definition getRandomSample :: "env \<Rightarrow> ref list \<Rightarrow> nat \<Rightarrow> ref list" where
  "getRandomSample e items sSize = take sSize (shuffle e items)"

definition getEfficientSample :: "env \<Rightarrow> ref list \<Rightarrow> nat \<Rightarrow> ref list" where
  "getEfficientSample e items sSize =
     (if length items > 10000 then reservoirSample (reservoirRandom e) items sSize
      else getRandomSample e items sSize)"

subsection \<open>The shuffle of \<^verbatim>\<open>getRandomSample\<close>\<close>

text \<open>
  \<^verbatim>\<open>getRandomSample\<close> shuffles with \<^verbatim>\<open>[...items].sort(() => 0.5 - Math.random())\<close>.
  The comparator ignores its arguments: its result is \<open>0.5 - u\<close> for a fresh draw \<open>u\<close>.
\<close>

definition randomCompare :: "real \<Rightarrow> jsnum" where
  "randomCompare u = js_sub (Fin (1 / 2)) (Fin u)"

text \<open>
  Which comparisons \<^verbatim>\<open>sort\<close> makes is the engine's choice.  Whatever the engine, its run
  on a given array is a decision tree: it either is done, with the array in some order, or
  asks the comparator about two elements and goes on one way for a positive result and
  another way for a result that is not positive.  (An engine that goes a third way for
  the result 0 goes it for the single draw \<open>1/2\<close>.)
\<close>

datatype sorter = Done "ref list" | Ask ref ref sorter sorter

text \<open>The order the engine leaves the array in, for a list of draws; \<open>None\<close> when the
  draws run out.\<close>

fun sortRun :: "sorter \<Rightarrow> real list \<Rightarrow> ref list option" where
  "sortRun (Done xs) us = Some xs"
| "sortRun (Ask a b pos nonpos) [] = None"
| "sortRun (Ask a b pos nonpos) (u # us) =
     (if js_gt (randomCompare u) (Fin 0) then sortRun pos us else sortRun nonpos us)"

text \<open>
  A draw \<open>u\<close> of \<^verbatim>\<open>Math.random\<close> is uniform on \<open>[0, 1)\<close>, and the comparator's result is
  positive exactly for \<open>u < 1/2\<close> (\<open>randomCompare_positive\<close>, among the properties): each answer has
  probability \<open>1/2\<close>, whatever was asked and whatever was answered before.  So the
  probability that the order the engine leaves satisfies \<open>P\<close> is \<open>prob\<close>; it is the share of
  the equally likely lists of answers for which the run leaves such an order
  (\<open>prob_counts\<close>, among the properties).
\<close>

fun prob :: "sorter \<Rightarrow> (ref list \<Rightarrow> bool) \<Rightarrow> real" where
  "prob (Done xs) P = (if P xs then 1 else 0)"
| "prob (Ask a b pos nonpos) P = (prob pos P + prob nonpos P) / 2"

fun depth :: "sorter \<Rightarrow> nat" where
  "depth (Done xs) = 0"
| "depth (Ask a b pos nonpos) = Suc (max (depth pos) (depth nonpos))"

text \<open>
  The lists of \<open>n\<close> draws that are each \<open>1/4\<close> or \<open>3/4\<close>: one list for each of the \<open>2 ^ n\<close>
  ways in which \<open>n\<close> draws can fall below \<open>1/2\<close> or not, all equally likely.
\<close>

definition answers :: "nat \<Rightarrow> real list list" where
  "answers n = List.n_lists n [1 / 4, 3 / 4]"

text \<open>The order the engine leaves for the draws \<open>us\<close> satisfies \<open>P\<close>.\<close>

definition leaves :: "sorter \<Rightarrow> (ref list \<Rightarrow> bool) \<Rightarrow> real list \<Rightarrow> bool" where
  "leaves t P us = (case sortRun t us of None \<Rightarrow> False | Some xs \<Rightarrow> P xs)"

section \<open>The distance cache\<close>

text \<open>\<^verbatim>\<open>items.indexOf(x)\<close>: the first position of \<open>x\<close>, or \<open>-1\<close>.\<close>

fun indexFrom :: "int \<Rightarrow> ref list \<Rightarrow> ref \<Rightarrow> int" where
  "indexFrom i [] x = - 1"
| "indexFrom i (y # ys) x = (if y = x then i else indexFrom (i + 1) ys x)"

definition indexOf :: "ref list \<Rightarrow> ref \<Rightarrow> int" where
  "indexOf xs x = indexFrom 0 xs x"

text \<open>The key \<^verbatim>\<open>`${items.indexOf(a)}-${items.indexOf(b)}`\<close>.\<close>

definition cacheKey :: "ref list \<Rightarrow> ref \<Rightarrow> ref \<Rightarrow> string" where
  "cacheKey items a b = string_of_int (indexOf items a) @ ''-'' @ string_of_int (indexOf items b)"

text \<open>
  The state of the cache: the \<^verbatim>\<open>Map\<close> from keys to distances and, beside it, the
  list of the pairs the distance function was called on, in the order of the calls.  The
  list is not a variable of the program; it records what the program does.
\<close>

type_synonym dstate = "(string \<rightharpoonup> jsnum) \<times> (ref \<times> ref) list"

definition getCachedDistance ::
  "(ref \<Rightarrow> ref \<Rightarrow> string) \<Rightarrow> (ref \<Rightarrow> ref \<Rightarrow> jsnum) \<Rightarrow> ref \<Rightarrow> ref \<Rightarrow> dstate \<Rightarrow> jsnum \<times> dstate" where
  "getCachedDistance key df a b st =
     (case fst st (key a b) of
        None \<Rightarrow> (let d = df a b in (d, ((fst st)(key a b \<mapsto> d), snd st @ [(a, b)])))
      | Some d \<Rightarrow> (d, st))"

text \<open>\<^verbatim>\<open>selected.map((s) => getCachedDistance(item, s))\<close>, left to right.\<close>

fun cachedDistances ::
  "(ref \<Rightarrow> ref \<Rightarrow> string) \<Rightarrow> (ref \<Rightarrow> ref \<Rightarrow> jsnum) \<Rightarrow> ref \<Rightarrow> ref list \<Rightarrow> dstate \<Rightarrow> jsnum list \<times> dstate" where
  "cachedDistances key df item [] st = ([], st)"
| "cachedDistances key df item (s # ss) st =
     (let r = getCachedDistance key df item s st;
          rs = cachedDistances key df item ss (snd r)
      in (fst r # fst rs, snd rs))"

section \<open>The greedy selection\<close>

text \<open>The score of a candidate from its minimum distance to the selected records.\<close>

definition scoreOf :: "(ref \<Rightarrow> jsrecord) \<Rightarrow> bool \<Rightarrow> real \<Rightarrow> ref \<Rightarrow> jsnum \<Rightarrow> jsnum" where
  "scoreOf heap prioritize weight item minDistance =
     (if prioritize
      then js_add (js_mul (js_sub (Fin 1) (Fin weight)) minDistance)
             (js_mul (Fin weight) (calculateCompleteness (heap item)))
      else minDistance)"

text \<open>
  The \<^verbatim>\<open>for\<close> loop over the candidates, from index \<open>i\<close> on.  \<open>best\<close> is
  \<^verbatim>\<open>maxScore\<close> with \<^verbatim>\<open>bestItem\<close> and \<^verbatim>\<open>bestIndex\<close>, \<open>None\<close> while
  \<^verbatim>\<open>bestItem\<close> is \<^verbatim>\<open>null\<close>.
\<close>

fun scan ::
  "(ref \<Rightarrow> ref \<Rightarrow> string) \<Rightarrow> (ref \<Rightarrow> ref \<Rightarrow> jsnum) \<Rightarrow> (ref \<Rightarrow> jsnum \<Rightarrow> jsnum) \<Rightarrow> ref list \<Rightarrow>
   ref list \<Rightarrow> nat \<Rightarrow> jsnum \<times> (ref \<times> nat) option \<Rightarrow> dstate \<Rightarrow> (jsnum \<times> (ref \<times> nat) option) \<times> dstate" where
  "scan key df score selected [] i best st = (best, st)"
| "scan key df score selected (item # rest) i best st =
     (let r = cachedDistances key df item selected st;
          minDistance = js_min_list (fst r);
          sc = score item minDistance
      in if js_gt sc (fst best)
         then scan key df score selected rest (Suc i) (sc, Some (item, i)) (snd r)
         else scan key df score selected rest (Suc i) best (snd r))"

definition pickBest ::
  "(ref \<Rightarrow> ref \<Rightarrow> string) \<Rightarrow> (ref \<Rightarrow> ref \<Rightarrow> jsnum) \<Rightarrow> (ref \<Rightarrow> jsnum \<Rightarrow> jsnum) \<Rightarrow> ref list \<Rightarrow>
   ref list \<Rightarrow> dstate \<Rightarrow> (ref \<times> nat) option \<times> dstate" where
  "pickBest key df score selected remainingItems st =
     (let r = scan key df score selected remainingItems 0 (Fin (- 1), None) st
      in (snd (fst r), snd r))"

text \<open>\<^verbatim>\<open>xs.splice(i, 1)\<close> for an index within the array.\<close>

definition splice1 :: "nat \<Rightarrow> 'a list \<Rightarrow> 'a list" where
  "splice1 i xs = take i xs @ drop (Suc i) xs"

text \<open>The index the loop returns lies within the candidates: what the termination of
  the selection needs.\<close>

lemma scan_index:
  "scan key df score selected rest i best st = ((m, Some (it, ix)), st') \<Longrightarrow>
   snd best = Some (it, ix) \<or> (i \<le> ix \<and> ix < i + length rest \<and> rest ! (ix - i) = it)"
proof (induction rest arbitrary: i best st)
  case Nil
  then show ?case by auto
next
  case (Cons item rest)
  let ?r = "cachedDistances key df item selected st"
  let ?sc = "score item (js_min_list (fst ?r))"
  show ?case
  proof (cases "js_gt ?sc (fst best)")
    case True
    with Cons.prems have "scan key df score selected rest (Suc i) (?sc, Some (item, i)) (snd ?r) = ((m, Some (it, ix)), st')"
      by (simp add: Let_def)
    from Cons.IH [OF this] show ?thesis
      by (auto simp: nth_Cons')
  next
    case False
    with Cons.prems have "scan key df score selected rest (Suc i) best (snd ?r) = ((m, Some (it, ix)), st')"
      by (simp add: Let_def)
    from Cons.IH [OF this] show ?thesis
      by (auto simp: nth_Cons')
  qed
qed

lemma pickBest_index:
  "fst (pickBest key df score selected remainingItems st) = Some (it, ix) \<Longrightarrow>
   ix < length remainingItems \<and> remainingItems ! ix = it"
proof -
  assume a: "fst (pickBest key df score selected remainingItems st) = Some (it, ix)"
  obtain m b st' where r: "scan key df score selected remainingItems 0 (Fin (- 1), None) st = ((m, b), st')"
    by (metis surj_pair)
  with a have "b = Some (it, ix)" by (simp add: pickBest_def)
  with r scan_index [of key df score selected remainingItems 0 "(Fin (- 1), None)" st m it ix st']
  show ?thesis by simp
qed

text \<open>
  The \<^verbatim>\<open>while\<close> loop.  Each iteration that does not break removes one candidate, so
  the loop ends.
\<close>

function selectLoop ::
  "(ref \<Rightarrow> ref \<Rightarrow> string) \<Rightarrow> (ref \<Rightarrow> ref \<Rightarrow> jsnum) \<Rightarrow> (ref \<Rightarrow> jsnum \<Rightarrow> jsnum) \<Rightarrow> int \<Rightarrow>
   ref list \<Rightarrow> ref list \<Rightarrow> dstate \<Rightarrow> ref list \<times> dstate" where
  "selectLoop key df score n selected remainingItems st =
     (if int (length selected) < n \<and> length remainingItems > 0
      then (case fst (pickBest key df score selected remainingItems st) of
              None \<Rightarrow> (selected, snd (pickBest key df score selected remainingItems st))
            | Some best \<Rightarrow>
                selectLoop key df score n (selected @ [fst best])
                  (splice1 (snd best) remainingItems)
                  (snd (pickBest key df score selected remainingItems st)))
      else (selected, st))"
  by pat_completeness auto
termination
proof (relation "measure (\<lambda>(key, df, score, n, selected, remainingItems, st). length remainingItems)")
  show "wf (measure (\<lambda>(key, df, score, n, selected, remainingItems, st). length remainingItems))"
    by simp
next
  fix key :: "ref \<Rightarrow> ref \<Rightarrow> string" and df :: "ref \<Rightarrow> ref \<Rightarrow> jsnum" and score :: "ref \<Rightarrow> jsnum \<Rightarrow> jsnum"
    and n :: int and selected remainingItems :: "ref list" and st :: dstate and best :: "ref \<times> nat"
  assume "fst (pickBest key df score selected remainingItems st) = Some best"
  then have "snd best < length remainingItems"
    using pickBest_index [of key df score selected remainingItems st "fst best" "snd best"] by simp
  then show "((key, df, score, n, selected @ [fst best], splice1 (snd best) remainingItems,
               snd (pickBest key df score selected remainingItems st)),
              (key, df, score, n, selected, remainingItems, st))
             \<in> measure (\<lambda>(key, df, score, n, selected, remainingItems, st). length remainingItems)"
    by (simp add: splice1_def)
qed

declare selectLoop.simps [simp del]

text \<open>
  \<^verbatim>\<open>xs.sort(cmp)\<close>.  The sort is stable; a comparator result that is positive puts the
  second argument first, a result that is negative, zero or NaN keeps the order.  For a
  consistent comparator that fixes the result, which insertion computes.  For another
  comparator (one that returns NaN for some pairs only) the standard leaves the order to
  the engine, and insertion is one engine.
\<close>

fun js_insert :: "(ref \<Rightarrow> ref \<Rightarrow> jsnum) \<Rightarrow> ref \<Rightarrow> ref list \<Rightarrow> ref list" where
  "js_insert cmp x [] = [x]"
| "js_insert cmp x (y # ys) =
     (if js_gt (cmp x y) (Fin 0) then y # js_insert cmp x ys else x # y # ys)"

definition js_sort :: "(ref \<Rightarrow> ref \<Rightarrow> jsnum) \<Rightarrow> ref list \<Rightarrow> ref list" where
  "js_sort cmp xs = foldr (js_insert cmp) xs []"

text \<open>
  The initial pick: \<open>Some\<close> of the picked item and the remaining items, or \<open>None\<close> when
  the pick is \<^verbatim>\<open>undefined\<close>.  With \<^verbatim>\<open>prioritizeComplete\<close> the remaining items
  are left sorted, since \<^verbatim>\<open>sort\<close> works in place.  \<^verbatim>\<open>splice(indexOf(x), 1)\<close>
  removes the first occurrence of \<open>x\<close>.
\<close>

definition firstPick :: "(ref \<Rightarrow> jsrecord) \<Rightarrow> env \<Rightarrow> bool \<Rightarrow> ref list \<Rightarrow> (ref \<times> ref list) option" where
  "firstPick heap e prioritize remainingItems =
     (if prioritize
      then (case js_sort (\<lambda>a b. js_sub (calculateCompleteness (heap b)) (calculateCompleteness (heap a)))
                   remainingItems of
              [] \<Rightarrow> None
            | mostComplete # others \<Rightarrow> Some (mostComplete, remove1 mostComplete (mostComplete # others)))
      else (let idx = \<lfloor>randomFirst e * real (length remainingItems)\<rfloor>
            in if 0 \<le> idx \<and> idx < int (length remainingItems)
               then Some (remainingItems ! nat idx, remove1 (remainingItems ! nat idx) remainingItems)
               else None))"

text \<open>
  The destructuring of the options with its defaults:
  \<^verbatim>\<open>sampleSize = Math.min(1000, items.length)\<close>, \<^verbatim>\<open>prioritizeComplete = false\<close>,
  \<^verbatim>\<open>completenessWeight = 0.3\<close>, \<^verbatim>\<open>distanceFunction = defaultDistance\<close>.
\<close>

definition sampleSizeOf :: "ref list \<Rightarrow> options \<Rightarrow> int" where
  "sampleSizeOf items opts =
     (case sampleSize opts of None \<Rightarrow> min 1000 (int (length items)) | Some s \<Rightarrow> s)"

definition prioritizeOf :: "options \<Rightarrow> bool" where
  "prioritizeOf opts = (case prioritizeComplete opts of None \<Rightarrow> False | Some p \<Rightarrow> p)"

definition weightOf :: "options \<Rightarrow> real" where
  "weightOf opts = (case completenessWeight opts of None \<Rightarrow> 3 / 10 | Some w \<Rightarrow> w)"

definition distanceOf :: "(ref \<Rightarrow> jsrecord) \<Rightarrow> options \<Rightarrow> ref \<Rightarrow> ref \<Rightarrow> jsnum" where
  "distanceOf heap opts =
     (case distanceFunction opts of
        None \<Rightarrow> (\<lambda>a b. defaultDistance (heap a) (heap b))
      | Some f \<Rightarrow> f)"

text \<open>\<^verbatim>\<open>items.length > sampleSize ? getEfficientSample(items, sampleSize) : items\<close>.\<close>

definition sampledItems :: "env \<Rightarrow> ref list \<Rightarrow> options \<Rightarrow> ref list" where
  "sampledItems e items opts =
     (if int (length items) > sampleSizeOf items opts
      then getEfficientSample e items (nat (sampleSizeOf items opts))
      else items)"

text \<open>
  \<^verbatim>\<open>selectDiverseExamples\<close>, with the final state of the distance cache beside the
  selected items.  The default distance and the completeness are the functions of the
  sections above on the records the addresses point to; they go through the flattening
  cache, which returns the flattening itself as long as it is consistent
  (\<open>getFlattenedObject_consistent\<close>, among the properties).
\<close>

definition selectDiverseExamples_trace ::
  "(ref \<Rightarrow> jsrecord) \<Rightarrow> env \<Rightarrow> ref list \<Rightarrow> options \<Rightarrow> error + ref list \<times> dstate" where
  "selectDiverseExamples_trace heap e items opts =
     (case validateOptions opts of
        Some err \<Rightarrow> Inl err
      | None \<Rightarrow>
          if length items = 0 \<or> numExamples opts = 0 then Inr ([], (Map.empty, []))
          else if numExamples opts > int (length items)
          then Inl (PickassoError ''Cannot select more examples than available items'')
          else (case firstPick heap e (prioritizeOf opts) (sampledItems e items opts) of
                  None \<Rightarrow> Inl UndefinedPick
                | Some first \<Rightarrow>
                    Inr (selectLoop (cacheKey items) (distanceOf heap opts)
                           (scoreOf heap (prioritizeOf opts) (weightOf opts)) (numExamples opts)
                           [fst first] (snd first) (Map.empty, []))))"

definition selectDiverseExamples ::
  "(ref \<Rightarrow> jsrecord) \<Rightarrow> env \<Rightarrow> ref list \<Rightarrow> options \<Rightarrow> error + ref list" where
  "selectDiverseExamples heap e items opts = map_sum id fst (selectDiverseExamples_trace heap e items opts)"

section \<open>Predicates of the statements\<close>



text \<open>A leaf that is an infinite number.\<close>

fun infinite_leaf :: "leaf \<Rightarrow> bool" where
  "infinite_leaf (LNum PInf) = True"
| "infinite_leaf (LNum NInf) = True"
| "infinite_leaf _ = False"

text \<open>A leaf that is a negative number.\<close>

fun negative_leaf :: "leaf \<Rightarrow> bool" where
  "negative_leaf (LNum (Fin x)) = (x < 0)"
| "negative_leaf _ = False"

text \<open>The calls of the distance function in a run: none when the run throws.\<close>

definition distanceCalls :: "error + ref list \<times> dstate \<Rightarrow> (ref \<times> ref) list" where
  "distanceCalls res = (case res of Inl err \<Rightarrow> [] | Inr r \<Rightarrow> snd (snd r))"







section \<open>Concrete data\<close>

text \<open>The four records of the test suite, at the addresses 0 to 3; every other address
  holds the empty record.\<close>

definition testData :: "ref \<Rightarrow> jsrecord" where
  "testData r =
     (if r = 0 then [(''id'', Leaf (LNum (Fin 1))), (''name'', Leaf (LStr ''John'')),
                     (''age'', Leaf (LNum (Fin 25))), (''city'', Leaf (LStr ''NY''))]
      else if r = 1 then [(''id'', Leaf (LNum (Fin 2))), (''name'', Leaf (LStr ''Jane'')),
                          (''age'', Leaf (LNum (Fin 30))), (''city'', Leaf (LStr ''LA''))]
      else if r = 2 then [(''id'', Leaf (LNum (Fin 3))), (''name'', Leaf (LStr ''Bob'')),
                          (''age'', Leaf (LNum (Fin 25))), (''city'', Leaf (LStr ''NY''))]
      else if r = 3 then [(''id'', Leaf (LNum (Fin 4))), (''name'', Leaf (LStr ''Alice'')),
                          (''age'', Leaf (LNum (Fin 35))), (''city'', Leaf (LStr ''SF''))]
      else [])"

text \<open>An environment whose first draw is 0 and whose shuffle keeps the order.\<close>

definition firstEnv :: env where
  "firstEnv = \<lparr>randomFirst = 0, shuffle = (\<lambda>xs. xs), reservoirRandom = (\<lambda>i. 0)\<rparr>"

text \<open>The options \<^verbatim>\<open>{ numExamples: n }\<close>.\<close>

definition justNum :: "int \<Rightarrow> options" where
  "justNum n = \<lparr>numExamples = n, sampleSize = None, prioritizeComplete = None,
                 completenessWeight = None, distanceFunction = None\<rparr>"

section \<open>Properties of the default distance\<close>

subsection \<open>Auxiliary facts\<close>

lemma newSet_aux:
  "distinct acc \<Longrightarrow>
   distinct (fold (\<lambda>k acc. if k \<in> set acc then acc else acc @ [k]) ks acc) \<and>
   set (fold (\<lambda>k acc. if k \<in> set acc then acc else acc @ [k]) ks acc) = set acc \<union> set ks"
  by (induction ks arbitrary: acc) auto


lemma set_newSet: "set (newSet ks) = set ks"
  using newSet_aux [of "[]" ks] by (simp add: newSet_def)













lemma penalty_self:
  "v \<noteq> LNum PInf \<Longrightarrow> v \<noteq> LNum NInf \<Longrightarrow> penalty v v = Fin 0"
proof (cases v)
  case (LNum a)
  assume "v \<noteq> LNum PInf" "v \<noteq> LNum NInf"
  with LNum show ?thesis
    by (cases a) (auto simp: js_gt_def js_sub_def Let_def)
qed simp_all

lemma getProp_in_values: "k \<in> fst ` set fl \<Longrightarrow> getProp fl k \<in> snd ` set fl"
proof -
  assume "k \<in> fst ` set fl"
  then obtain v where "map_of fl k = Some v"
    by (metis domD dom_map_of_conv_image_fst)
  then show ?thesis
    by (metis getProp_def image_eqI map_of_SomeD option.simps(5) snd_conv)
qed

lemma fold_distanceStep_self:
  assumes "\<forall>v \<in> snd ` set fl. v \<noteq> LUndefined \<and> v \<noteq> LNum PInf \<and> v \<noteq> LNum NInf"
    and "set ks \<subseteq> fst ` set fl"
  shows "fold (distanceStep fl fl) ks (Fin d, n) = (Fin d, n + length ks)"
  using assms(2)
proof (induction ks arbitrary: n)
  case Nil
  then show ?case by simp
next
  case (Cons k ks)
  from Cons.prems have "getProp fl k \<in> snd ` set fl"
    by (simp add: getProp_in_values)
  with assms(1) have "getProp fl k \<noteq> LUndefined \<and> getProp fl k \<noteq> LNum PInf \<and> getProp fl k \<noteq> LNum NInf"
    by blast
  then have "getProp fl k \<noteq> LUndefined" "penalty (getProp fl k) (getProp fl k) = Fin 0"
    by (simp_all add: penalty_self)
  then have "distanceStep fl fl k (Fin d, n) = (Fin d, Suc n)"
    by (simp add: distanceStep_def)
  with Cons show ?case by simp
qed

lemma newSet_Nil_iff: "newSet ks = [] \<longleftrightarrow> ks = []"
  using set_newSet [of ks] by (metis set_empty)

lemma flatDistance_self:
  assumes "\<forall>v \<in> snd ` set fl. v \<noteq> LUndefined \<and> v \<noteq> LNum PInf \<and> v \<noteq> LNum NInf"
  shows "flatDistance fl fl = (if fl = [] then Fin 1 else Fin 0)"
proof -
  let ?ks = "newSet (map fst fl @ map fst fl)"
  have "set ?ks \<subseteq> fst ` set fl" by (simp add: set_newSet)
  then have f: "fold (distanceStep fl fl) ?ks (Fin 0, 0) = (Fin 0, 0 + length ?ks)"
    using assms by (rule fold_distanceStep_self [rotated])
  have e: "?ks = [] \<longleftrightarrow> fl = []" by (simp add: newSet_Nil_iff)
  show ?thesis
    unfolding flatDistance_def Let_def f using e by auto
qed

subsection \<open>Symmetry\<close>


subsection \<open>Range\<close>

text \<open>
  Claim C2.  The claim bounds \<open>defaultDistance\<close> by 1, as the function's own documentation
  does (\<^verbatim>\<open>@returns A number between 0 and 1\<close>).  For two numbers of opposite sign
  the penalty \<^verbatim>\<open>|a - b| / max(|a|, |b|)\<close> exceeds 1: the records \<^verbatim>\<open>{a: 1}\<close> and
  \<^verbatim>\<open>{a: -1}\<close> are at distance 2.  (The distance of records without infinite numbers
  lies between 0 and 2, and between 0 and 1 when no number is negative:
  \<open>defaultDistance_range\<close> and \<open>defaultDistance_range_nonnegative\<close>, further on.)
\<close>

theorem defaultDistance_opposite_signs:
  "defaultDistance [(''a'', Leaf (LNum (Fin 1)))] [(''a'', Leaf (LNum (Fin (- 1))))] = Fin 2"
  by (simp add: defaultDistance_def flattenObject_def flatDistance_def newSet_def
      distanceStep_def getProp_def fullKey_def js_sub_def js_gt_def)

subsection \<open>Distance of a record to itself\<close>

text \<open>
  Claim C4, as stated, fails: the empty record is at distance 1 from itself, by the
  explicit \<^verbatim>\<open>validComparisons > 0 ? ... : 1\<close>.
\<close>

theorem defaultDistance_self_counterexample:
  "defaultDistance [] [] = Fin 1 \<and> defaultDistance [] [] \<noteq> Fin 0"
  by (simp add: defaultDistance_def flattenObject_def flatDistance_def newSet_def)

text \<open>
  Claim C4, amended.  For every record \<open>x\<close> whose flattening holds no \<^verbatim>\<open>undefined\<close>
  and no infinite number, \<open>defaultDistance x x\<close> is 0 when the flattening has at least one
  path, and 1 when it has none.
\<close>

theorem defaultDistance_self:
  assumes "\<forall>v \<in> snd ` set (flattenObject x). v \<noteq> LUndefined \<and> v \<noteq> LNum PInf \<and> v \<noteq> LNum NInf"
  shows "defaultDistance x x = (if flattenObject x = [] then Fin 1 else Fin 0)"
  unfolding defaultDistance_def using assms by (rule flatDistance_self)

theorem defaultDistance_self_witness:
  "flattenObject [(''a'', Leaf (LNum (Fin 1))), (''b'', Leaf (LStr ''test''))] \<noteq> [] \<and>
   defaultDistance [(''a'', Leaf (LNum (Fin 1))), (''b'', Leaf (LStr ''test''))]
     [(''a'', Leaf (LNum (Fin 1))), (''b'', Leaf (LStr ''test''))] = Fin 0"
proof -
  have h: "\<forall>v \<in> snd ` set (flattenObject [(''a'', Leaf (LNum (Fin 1))), (''b'', Leaf (LStr ''test''))]).
       v \<noteq> LUndefined \<and> v \<noteq> LNum PInf \<and> v \<noteq> LNum NInf"
    by (simp add: flattenObject_def fullKey_def)
  have n: "flattenObject [(''a'', Leaf (LNum (Fin 1))), (''b'', Leaf (LStr ''test''))] \<noteq> []"
    by (simp add: flattenObject_def fullKey_def)
  show ?thesis
    using n defaultDistance_self [OF h] by simp
qed

section \<open>Properties of the completeness score\<close>

text \<open>
  Claim C3.  The claim gives the record without leaf paths the completeness 0, by an
  explicit special case.  \<open>calculateCompleteness\<close> has no such case: it divides the number
  of defined values by the number of paths, and for the empty record that is
  \<^verbatim>\<open>0/0\<close>, which is NaN, outside the interval its documentation announces.  (For a
  record with at least one leaf path the completeness lies between 0 and 1:
  \<open>calculateCompleteness_range\<close>, further on.)
\<close>

theorem calculateCompleteness_empty:
  "calculateCompleteness [] = NaN"
  by (simp add: calculateCompleteness_def flattenObject_def)

section \<open>Properties of the selection\<close>

subsection \<open>The flattening cache is transparent\<close>

lemma getFlattenedObject_consistent:
  assumes "cache_consistent heap fc"
  shows "fst (getFlattenedObject heap fc obj) = flattenObject (heap obj)"
    and "cache_consistent heap (snd (getFlattenedObject heap fc obj))"
  using assms
  by (auto simp: getFlattenedObject_def cache_consistent_def Let_def split: option.splits)

subsection \<open>Sampling\<close>

lemma reservoir_fold:
  "s + k \<le> length items \<Longrightarrow>
   length (fold (reservoirStep rnd items s) [s..<s + k] (take s items)) = s \<and>
   mset (fold (reservoirStep rnd items s) [s..<s + k] (take s items)) \<subseteq># mset (take (s + k) items)"
proof (induction k)
  case 0
  then show ?case by simp
next
  case (Suc k)
  let ?r = "fold (reservoirStep rnd items s) [s..<s + k] (take s items)"
  let ?x = "items ! (s + k)"
  from Suc have len: "length ?r = s" and sub: "mset ?r \<subseteq># mset (take (s + k) items)"
    by simp_all
  have t: "mset (take (s + Suc k) items) = add_mset ?x (mset (take (s + k) items))"
    using Suc.prems by (simp add: take_Suc_conv_app_nth)
  have f: "fold (reservoirStep rnd items s) [s..<s + Suc k] (take s items) = reservoirStep rnd items s (s + k) ?r"
    by simp
  define q where "q = \<lfloor>rnd (s + k) * real (s + k + 1)\<rfloor>"
  have rs: "reservoirStep rnd items s (s + k) ?r =
      (if 0 \<le> q \<and> q < int s then ?r[nat q := ?x] else ?r)"
    unfolding reservoirStep_def q_def Let_def ..
  show ?case
  proof (cases "0 \<le> q \<and> q < int s")
    case True
    then have j: "nat q < length ?r" unfolding len by linarith
    from True have st: "reservoirStep rnd items s (s + k) ?r = ?r[nat q := ?x]"
      unfolding rs by simp
    have "mset (?r[nat q := ?x]) = add_mset ?x (mset ?r - {#?r ! nat q#})"
      using j by (rule mset_update)
    also have "\<dots> \<subseteq># add_mset ?x (mset ?r)"
      by simp
    also have "\<dots> \<subseteq># add_mset ?x (mset (take (s + k) items))"
      using sub by simp
    finally have "mset (?r[nat q := ?x]) \<subseteq># mset (take (s + Suc k) items)"
      by (simp only: t)
    then show ?thesis
      unfolding f st using len by simp
  next
    case False
    then have st: "reservoirStep rnd items s (s + k) ?r = ?r"
      unfolding rs by (simp only: if_False)
    have "mset (take (s + k) items) \<subseteq># add_mset ?x (mset (take (s + k) items))"
      by simp
    with sub have "mset ?r \<subseteq># mset (take (s + Suc k) items)"
      unfolding t by (rule subset_mset.order_trans)
    then show ?thesis
      unfolding f st using len by simp
  qed
qed

lemma reservoirSample_props:
  assumes "s \<le> length items"
  shows "length (reservoirSample rnd items s) = s"
    and "mset (reservoirSample rnd items s) \<subseteq># mset items"
proof -
  have e: "[s..<length items] = [s..<s + (length items - s)]"
    using assms by simp
  have "s + (length items - s) \<le> length items" using assms by simp
  from reservoir_fold [OF this, of rnd]
  show "length (reservoirSample rnd items s) = s"
    and "mset (reservoirSample rnd items s) \<subseteq># mset items"
    using assms by (simp_all add: reservoirSample_def)
qed

lemma mset_take_subseteq: "mset (take n xs) \<subseteq># mset xs"
  by (metis append_take_drop_id mset_append mset_subset_eq_add_left)

lemma getRandomSample_props:
  assumes "env_ok e" and "s \<le> length items"
  shows "length (getRandomSample e items s) = s"
    and "mset (getRandomSample e items s) \<subseteq># mset items"
proof -
  from assms(1) have m: "mset (shuffle e items) = mset items"
    by (simp add: env_ok_def)
  then have "length (shuffle e items) = length items"
    by (rule mset_eq_length)
  with assms(2) show "length (getRandomSample e items s) = s"
    by (simp add: getRandomSample_def)
  show "mset (getRandomSample e items s) \<subseteq># mset items"
    unfolding getRandomSample_def using mset_take_subseteq [of s "shuffle e items"] m by simp
qed

lemma getEfficientSample_props:
  assumes "env_ok e" and "s \<le> length items"
  shows "length (getEfficientSample e items s) = s"
    and "mset (getEfficientSample e items s) \<subseteq># mset items"
  using assms reservoirSample_props [of s items] getRandomSample_props [of e s items]
  by (simp_all add: getEfficientSample_def)

subsection \<open>The first pick\<close>

lemma mset_js_insert: "mset (js_insert cmp x ys) = add_mset x (mset ys)"
  by (induction ys) simp_all

lemma mset_js_sort: "mset (js_sort cmp xs) = mset xs"
  by (induction xs) (simp_all add: js_sort_def mset_js_insert)

lemma firstPick_mset:
  assumes "firstPick heap e p rem = Some (f, r)"
  shows "add_mset f (mset r) = mset rem"
proof (cases p)
  case True
  let ?s = "js_sort (\<lambda>a b. js_sub (calculateCompleteness (heap b)) (calculateCompleteness (heap a))) rem"
  from True assms obtain others where "?s = f # others" "r = others"
    by (auto simp: firstPick_def split: list.splits)
  then have "add_mset f (mset r) = mset ?s" by simp
  then show ?thesis by (simp add: mset_js_sort)
next
  case False
  define idx where "idx = \<lfloor>randomFirst e * real (length rem)\<rfloor>"
  from False assms have fp: "(if 0 \<le> idx \<and> idx < int (length rem)
        then Some (rem ! nat idx, remove1 (rem ! nat idx) rem) else None) = Some (f, r)"
    unfolding firstPick_def Let_def idx_def by (simp only: if_False)
  then have i: "0 \<le> idx \<and> idx < int (length rem)"
    by (cases "0 \<le> idx \<and> idx < int (length rem)") simp_all
  with fp have fr: "f = rem ! nat idx" "r = remove1 f rem" by auto
  from i have "nat idx < length rem" by linarith
  with fr have "f \<in> set rem" by simp
  with fr show ?thesis by simp
qed

lemma random_index:
  assumes "0 \<le> r" and "r < 1" and "0 < n"
  shows "0 \<le> \<lfloor>r * real n\<rfloor> \<and> \<lfloor>r * real n\<rfloor> < int n"
proof -
  have "0 \<le> r * real n" using assms by simp
  then have a: "0 \<le> \<lfloor>r * real n\<rfloor>" by simp
  have "r * real n < real n" using assms by simp
  then have "\<lfloor>r * real n\<rfloor> < int n" by (simp add: floor_less_iff)
  with a show ?thesis by simp
qed

lemma firstPick_Some:
  assumes "env_ok e" and "rem \<noteq> []"
  shows "\<exists>f r. firstPick heap e p rem = Some (f, r)"
proof (cases p)
  case True
  let ?s = "js_sort (\<lambda>a b. js_sub (calculateCompleteness (heap b)) (calculateCompleteness (heap a))) rem"
  have "mset ?s = mset rem" by (rule mset_js_sort)
  with assms(2) have "?s \<noteq> []" by (metis mset_zero_iff)
  then obtain m others where "?s = m # others" by (cases ?s) auto
  with True show ?thesis by (simp add: firstPick_def)
next
  case False
  from assms have "0 \<le> \<lfloor>randomFirst e * real (length rem)\<rfloor> \<and> \<lfloor>randomFirst e * real (length rem)\<rfloor> < int (length rem)"
    by (intro random_index) (simp_all add: env_ok_def)
  with False show ?thesis by (simp add: firstPick_def Let_def)
qed

subsection \<open>The working set\<close>

lemma sampleSizeOf_pos:
  assumes "validateOptions opts = None" and "items \<noteq> []"
  shows "0 < sampleSizeOf items opts"
  using assms
  by (auto simp: validateOptions_def sampleSizeOf_def split: option.splits if_splits)

lemma sampledItems_props:
  assumes "env_ok e" and "validateOptions opts = None" and "items \<noteq> []"
  shows "length (sampledItems e items opts) = nat (min (sampleSizeOf items opts) (int (length items)))"
    and "mset (sampledItems e items opts) \<subseteq># mset items"
proof -
  have p: "0 < sampleSizeOf items opts" using assms(2,3) by (rule sampleSizeOf_pos)
  show "length (sampledItems e items opts) = nat (min (sampleSizeOf items opts) (int (length items)))"
  proof (cases "int (length items) > sampleSizeOf items opts")
    case True
    then have "nat (sampleSizeOf items opts) \<le> length items" by simp
    from getEfficientSample_props(1) [OF assms(1) this] True show ?thesis
      by (simp add: sampledItems_def min_def)
  next
    case False
    then show ?thesis by (simp add: sampledItems_def min_def)
  qed
  show "mset (sampledItems e items opts) \<subseteq># mset items"
  proof (cases "int (length items) > sampleSizeOf items opts")
    case True
    then have "nat (sampleSizeOf items opts) \<le> length items" by simp
    from getEfficientSample_props(2) [OF assms(1) this] True show ?thesis
      by (simp add: sampledItems_def)
  next
    case False
    then show ?thesis by (simp add: sampledItems_def)
  qed
qed

lemma sampledItems_nonempty:
  assumes "env_ok e" and "validateOptions opts = None" and "items \<noteq> []"
  shows "sampledItems e items opts \<noteq> []"
proof -
  have "0 < sampleSizeOf items opts" using assms(2,3) by (rule sampleSizeOf_pos)
  moreover have "0 < int (length items)" using assms(3) by simp
  ultimately have "0 < min (sampleSizeOf items opts) (int (length items))" by (simp add: min_def)
  then have "0 < nat (min (sampleSizeOf items opts) (int (length items)))" by linarith
  with sampledItems_props(1) [OF assms] have "0 < length (sampledItems e items opts)" by simp
  then show ?thesis by auto
qed

subsection \<open>Validation and the edge cases\<close>

text \<open>
  Claim C8.  When \<^verbatim>\<open>completenessWeight\<close> is given and lies outside \<open>[0, 1]\<close>, the call
  ends with the error of that check, whatever the items and the other options are (also
  for no items, and for a request of 0 examples).  When \<^verbatim>\<open>sampleSize\<close> is given and
  is not positive, the call ends with one of the two configuration errors (the weight is
  checked first).  The error is all the run returns: no sample is drawn, no item picked and
  no distance computed before it.
\<close>

theorem validation_errors:
  "(completenessWeight opts = Some w \<and> (w < 0 \<or> 1 < w) \<longrightarrow>
      selectDiverseExamples_trace heap e items opts =
        Inl (PickassoError ''completenessWeight must be between 0 and 1'') \<and>
      selectDiverseExamples heap e items opts =
        Inl (PickassoError ''completenessWeight must be between 0 and 1'')) \<and>
   (sampleSize opts = Some s \<and> s \<le> 0 \<longrightarrow>
      (selectDiverseExamples_trace heap e items opts =
         Inl (PickassoError ''completenessWeight must be between 0 and 1'') \<and>
       selectDiverseExamples heap e items opts =
         Inl (PickassoError ''completenessWeight must be between 0 and 1'')) \<or>
      (selectDiverseExamples_trace heap e items opts = Inl (PickassoError ''sampleSize must be positive'') \<and>
       selectDiverseExamples heap e items opts = Inl (PickassoError ''sampleSize must be positive'')))"
  by (auto simp: selectDiverseExamples_def selectDiverseExamples_trace_def validateOptions_def
      split: option.splits)

theorem validation_errors_witness:
  "selectDiverseExamples testData firstEnv [] ((justNum 0)\<lparr>completenessWeight := Some (3 / 2)\<rparr>) =
     Inl (PickassoError ''completenessWeight must be between 0 and 1'') \<and>
   selectDiverseExamples testData firstEnv [0, 1, 2, 3] ((justNum 2)\<lparr>sampleSize := Some 0\<rparr>) =
     Inl (PickassoError ''sampleSize must be positive'')"
proof -
  have a: "completenessWeight ((justNum 0)\<lparr>completenessWeight := Some (3 / 2)\<rparr>) = Some (3 / 2) \<and>
      ((3 / 2 :: real) < 0 \<or> 1 < (3 / 2 :: real))"
    by simp
  have b: "sampleSize ((justNum 2)\<lparr>sampleSize := Some 0\<rparr>) = Some 0 \<and> (0 :: int) \<le> 0"
    by simp
  have c: "completenessWeight ((justNum 2)\<lparr>sampleSize := Some 0\<rparr>) = None"
    by (simp add: justNum_def)
  from validation_errors [where opts = "(justNum 0)\<lparr>completenessWeight := Some (3 / 2)\<rparr>" and w = "3 / 2"
      and heap = testData and e = firstEnv and items = "[]"] a
  have 1: "selectDiverseExamples testData firstEnv [] ((justNum 0)\<lparr>completenessWeight := Some (3 / 2)\<rparr>) =
     Inl (PickassoError ''completenessWeight must be between 0 and 1'')"
    by blast
  from validation_errors [where opts = "(justNum 2)\<lparr>sampleSize := Some 0\<rparr>" and s = 0
      and heap = testData and e = firstEnv and items = "[0, 1, 2, 3]"] b
  have "selectDiverseExamples testData firstEnv [0, 1, 2, 3] ((justNum 2)\<lparr>sampleSize := Some 0\<rparr>) =
         Inl (PickassoError ''completenessWeight must be between 0 and 1'') \<or>
       selectDiverseExamples testData firstEnv [0, 1, 2, 3] ((justNum 2)\<lparr>sampleSize := Some 0\<rparr>) =
         Inl (PickassoError ''sampleSize must be positive'')"
    by blast
  moreover have "selectDiverseExamples testData firstEnv [0, 1, 2, 3] ((justNum 2)\<lparr>sampleSize := Some 0\<rparr>) \<noteq>
         Inl (PickassoError ''completenessWeight must be between 0 and 1'')"
    using c by (simp add: selectDiverseExamples_def selectDiverseExamples_trace_def validateOptions_def)
  ultimately show ?thesis using 1 by blast
qed

lemma selectLoop_done:
  "\<not> (int (length selected) < n \<and> length remainingItems > 0) \<Longrightarrow>
   selectLoop key df score n selected remainingItems st = (selected, st)"
  by (subst selectLoop.simps) (simp only: if_False)

text \<open>
  Claim C7, as stated, fails: the options are validated before the edge cases are looked
  at, so a call with no items and a request of 0 examples throws when the weight is invalid.
\<close>

theorem insufficient_items_counterexample:
  "selectDiverseExamples testData firstEnv [] ((justNum 0)\<lparr>completenessWeight := Some 2\<rparr>) =
     Inl (PickassoError ''completenessWeight must be between 0 and 1'')"
  by (simp add: selectDiverseExamples_def selectDiverseExamples_trace_def validateOptions_def)

text \<open>
  Claim C7, amended.  For options that pass the validation, the call throws
  \<^verbatim>\<open>Cannot select more examples than available items\<close> exactly when the collection is
  not empty and \<^verbatim>\<open>numExamples\<close> is positive and exceeds its size; and when the
  collection is empty or \<^verbatim>\<open>numExamples\<close> is 0 it returns the empty sequence.
\<close>

theorem insufficient_items:
  assumes "validateOptions opts = None"
  shows "(selectDiverseExamples heap e items opts =
            Inl (PickassoError ''Cannot select more examples than available items'') \<longleftrightarrow>
          items \<noteq> [] \<and> 0 < numExamples opts \<and> int (length items) < numExamples opts) \<and>
         (items = [] \<or> numExamples opts = 0 \<longrightarrow> selectDiverseExamples heap e items opts = Inr [])"
  using assms
  by (auto simp: selectDiverseExamples_def selectDiverseExamples_trace_def split: option.splits)

theorem insufficient_items_witness:
  "selectDiverseExamples testData firstEnv [0, 1, 2, 3] (justNum 5) =
     Inl (PickassoError ''Cannot select more examples than available items'') \<and>
   selectDiverseExamples testData firstEnv [] (justNum 0) = Inr [] \<and>
   selectDiverseExamples testData firstEnv [0, 1, 2, 3] (justNum 0) = Inr []"
proof -
  have v5: "validateOptions (justNum 5) = None" and v0: "validateOptions (justNum 0) = None"
    by (simp_all add: validateOptions_def justNum_def)
  have n5: "numExamples (justNum 5) = 5" and n0: "numExamples (justNum 0) = 0"
    by (simp_all add: justNum_def)
  from insufficient_items [OF v5, of testData firstEnv "[0, 1, 2, 3]"] n5
  have a: "selectDiverseExamples testData firstEnv [0, 1, 2, 3] (justNum 5) =
     Inl (PickassoError ''Cannot select more examples than available items'')"
    by simp
  from insufficient_items [OF v0, of testData firstEnv "[]"]
  have b: "selectDiverseExamples testData firstEnv [] (justNum 0) = Inr []"
    by simp
  from insufficient_items [OF v0, of testData firstEnv "[0, 1, 2, 3]"] n0
  have c: "selectDiverseExamples testData firstEnv [0, 1, 2, 3] (justNum 0) = Inr []"
    by simp
  from a b c show ?thesis by simp
qed

subsection \<open>A negative request\<close>

text \<open>
  Claim C10.  For a collection that is not empty, options that pass the validation and a
  negative \<^verbatim>\<open>numExamples\<close>, the call throws nothing and returns exactly one item of
  the collection, the initial pick: neither edge-case test applies, and the loop's
  condition fails at once, before a distance is computed.
\<close>

theorem negative_numExamples:
  assumes "env_ok e" and "validateOptions opts = None" and "items \<noteq> []"
    and "numExamples opts < 0"
  shows "\<exists>x r. firstPick heap e (prioritizeOf opts) (sampledItems e items opts) = Some (x, r) \<and>
           x \<in> set items \<and> selectDiverseExamples heap e items opts = Inr [x] \<and>
           distanceCalls (selectDiverseExamples_trace heap e items opts) = []"
proof -
  have ne: "sampledItems e items opts \<noteq> []"
    using assms(1-3) by (rule sampledItems_nonempty)
  from firstPick_Some [OF assms(1) ne] obtain f r
    where fp: "firstPick heap e (prioritizeOf opts) (sampledItems e items opts) = Some (f, r)"
    by blast
  from firstPick_mset [OF fp] have "f \<in># mset (sampledItems e items opts)"
    by (metis union_single_eq_member)
  moreover have "mset (sampledItems e items opts) \<subseteq># mset items"
    using assms(1-3) by (rule sampledItems_props)
  ultimately have "f \<in> set items"
    by (metis mset_subset_eqD set_mset_mset)
  have "\<not> (int (length [f]) < numExamples opts \<and> length r > 0)"
    using assms(4) by simp
  then have "selectLoop (cacheKey items) (distanceOf heap opts)
      (scoreOf heap (prioritizeOf opts) (weightOf opts)) (numExamples opts) [f] r (Map.empty, []) =
      ([f], (Map.empty, []))"
    by (rule selectLoop_done)
  with fp assms(2-4) have "selectDiverseExamples_trace heap e items opts = Inr ([f], (Map.empty, []))"
    by (simp add: selectDiverseExamples_trace_def)
  then have "selectDiverseExamples heap e items opts = Inr [f]"
    and "distanceCalls (selectDiverseExamples_trace heap e items opts) = []"
    by (simp_all add: selectDiverseExamples_def distanceCalls_def)
  with fp \<open>f \<in> set items\<close> show ?thesis by blast
qed

theorem negative_numExamples_witness:
  "\<exists>x r. firstPick testData firstEnv (prioritizeOf (justNum (- 3)))
            (sampledItems firstEnv [0, 1, 2, 3] (justNum (- 3))) = Some (x, r) \<and>
     x \<in> set [0, 1, 2, 3] \<and>
     selectDiverseExamples testData firstEnv [0, 1, 2, 3] (justNum (- 3)) = Inr [x] \<and>
     distanceCalls (selectDiverseExamples_trace testData firstEnv [0, 1, 2, 3] (justNum (- 3))) = []"
proof -
  have e: "env_ok firstEnv" by (simp add: env_ok_def firstEnv_def)
  have v: "validateOptions (justNum (- 3)) = None"
    by (simp add: validateOptions_def justNum_def)
  have n: "numExamples (justNum (- 3)) < 0" by (simp add: justNum_def)
  have i: "[0, 1, 2, 3] \<noteq> ([] :: ref list)" by simp
  from negative_numExamples [OF e v i n] show ?thesis .
qed

subsection \<open>The loop selects items of the working set\<close>




subsection \<open>When every score is above the initial maximum\<close>










subsection \<open>The range of the default distance and of the completeness\<close>

lemma penalty_finite:
  "penalty (LNum (Fin x)) (LNum (Fin y)) =
     (if 0 < max \<bar>x\<bar> \<bar>y\<bar> then Fin (\<bar>x - y\<bar> / max \<bar>x\<bar> \<bar>y\<bar>) else Fin 0)"
proof -
  have m: "js_max (js_abs (Fin x)) (js_abs (Fin y)) = Fin (max \<bar>x\<bar> \<bar>y\<bar>)"
    by (simp add: max_def)
  have s: "js_abs (js_sub (Fin x) (Fin y)) = Fin \<bar>x - y\<bar>"
    by (simp add: js_sub_def)
  have p: "penalty (LNum (Fin x)) (LNum (Fin y)) =
      (if js_lt (Fin 0) (Fin (max \<bar>x\<bar> \<bar>y\<bar>))
       then js_div (Fin \<bar>x - y\<bar>) (Fin (max \<bar>x\<bar> \<bar>y\<bar>)) else Fin 0)"
    unfolding penalty.simps m s Let_def js_gt_def ..
  show ?thesis
  proof (cases "0 < max \<bar>x\<bar> \<bar>y\<bar>")
    case True
    then have "max \<bar>x\<bar> \<bar>y\<bar> \<noteq> 0" by linarith
    with True show ?thesis unfolding p by simp
  next
    case False
    then show ?thesis unfolding p by simp
  qed
qed

lemma penalty_range:
  assumes "\<not> infinite_leaf v" and "\<not> infinite_leaf w"
  shows "\<exists>p. penalty v w = Fin p \<and> 0 \<le> p \<and> p \<le> 2 \<and>
             (\<not> negative_leaf v \<and> \<not> negative_leaf w \<longrightarrow> p \<le> 1)"
proof (cases "\<exists>x y. v = LNum (Fin x) \<and> w = LNum (Fin y)")
  case True
  then obtain x y where v: "v = LNum (Fin x)" and w: "w = LNum (Fin y)" by blast
  show ?thesis
  proof (cases "0 < max \<bar>x\<bar> \<bar>y\<bar>")
    case True
    have p: "penalty v w = Fin (\<bar>x - y\<bar> / max \<bar>x\<bar> \<bar>y\<bar>)"
      unfolding v w penalty_finite using True by simp
    have "\<bar>x - y\<bar> \<le> 2 * max \<bar>x\<bar> \<bar>y\<bar>" by (simp add: max_def abs_if)
    then have u: "\<bar>x - y\<bar> / max \<bar>x\<bar> \<bar>y\<bar> \<le> 2"
      using True by (simp add: pos_divide_le_eq)
    have l: "0 \<le> \<bar>x - y\<bar> / max \<bar>x\<bar> \<bar>y\<bar>"
      using True by simp
    have "0 \<le> x \<Longrightarrow> 0 \<le> y \<Longrightarrow> \<bar>x - y\<bar> / max \<bar>x\<bar> \<bar>y\<bar> \<le> 1"
    proof -
      assume "0 \<le> x" "0 \<le> y"
      then have "\<bar>x - y\<bar> \<le> 1 * max \<bar>x\<bar> \<bar>y\<bar>" by (simp add: max_def abs_if)
      then show ?thesis using True by (simp add: pos_divide_le_eq)
    qed
    with p u l show ?thesis by (simp add: v w not_less)
  next
    case False
    then have "penalty v w = Fin 0"
      unfolding v w penalty_finite by (simp only: if_False)
    then show ?thesis by simp
  qed
next
  case False
  have "penalty v w = Fin 0 \<or> penalty v w = Fin 1"
  proof (cases "\<exists>a b. v = LNum a \<and> w = LNum b")
    case True
    then obtain a b where ab: "v = LNum a" "w = LNum b" by blast
    with False assms have "a = NaN \<or> b = NaN"
      by (cases a; cases b) auto
    then have "js_max (js_abs a) (js_abs b) = NaN"
      by (cases a; cases b) auto
    then show ?thesis by (simp add: ab js_gt_def)
  next
    case False
    then show ?thesis by (cases v; cases w) auto
  qed
  then show ?thesis by auto
qed

lemma getProp_cases: "getProp fl k = LUndefined \<or> getProp fl k \<in> snd ` set fl"
proof (cases "map_of fl k")
  case None
  then show ?thesis by (simp add: getProp_def)
next
  case (Some v)
  then have "(k, v) \<in> set fl" by (rule map_of_SomeD)
  then have "v \<in> snd ` set fl" by force
  with Some show ?thesis by (simp add: getProp_def)
qed

lemma getProp_not_infinite:
  "\<forall>v \<in> snd ` set fl. \<not> infinite_leaf v \<Longrightarrow> \<not> infinite_leaf (getProp fl k)"
  using getProp_cases [of fl k] by auto

lemma getProp_not_negative:
  "\<forall>v \<in> snd ` set fl. \<not> negative_leaf v \<Longrightarrow> \<not> negative_leaf (getProp fl k)"
  using getProp_cases [of fl k] by auto

lemma fold_distanceStep_range:
  assumes "\<forall>v \<in> snd ` set f1. \<not> infinite_leaf v" and "\<forall>v \<in> snd ` set f2. \<not> infinite_leaf v"
    and "B = 2 \<or> (B = 1 \<and> (\<forall>v \<in> snd ` set f1. \<not> negative_leaf v) \<and> (\<forall>v \<in> snd ` set f2. \<not> negative_leaf v))"
  shows "\<exists>d' n'. fold (distanceStep f1 f2) ks (Fin d, n) = (Fin d', n') \<and>
           d \<le> d' \<and> d' \<le> d + B * real (length ks) \<and> n' \<le> n + length ks"
proof (induction ks arbitrary: d n)
  case Nil
  then show ?case by simp
next
  case (Cons k ks)
  let ?v = "getProp f1 k" and ?w = "getProp f2 k"
  have B: "1 \<le> B" "B \<le> 2" using assms(3) by auto
  have "\<exists>p m. distanceStep f1 f2 k (Fin d, n) = (Fin (d + p), m) \<and> 0 \<le> p \<and> p \<le> B \<and> m \<le> Suc n"
  proof (cases "?v = LUndefined \<or> ?w = LUndefined")
    case True
    then have "distanceStep f1 f2 k (Fin d, n) = (Fin (d + 1), n)"
      by (auto simp: distanceStep_def Let_def)
    with B show ?thesis by auto
  next
    case False
    from assms(1,2) have "\<not> infinite_leaf ?v" "\<not> infinite_leaf ?w"
      by (simp_all add: getProp_not_infinite)
    from penalty_range [OF this] obtain p where p: "penalty ?v ?w = Fin p" "0 \<le> p" "p \<le> 2"
      "\<not> negative_leaf ?v \<and> \<not> negative_leaf ?w \<longrightarrow> p \<le> 1"
      by blast
    have "p \<le> B"
    proof (cases "B = 2")
      case True
      with p(3) show ?thesis by simp
    next
      case False
      with assms(3) have "B = 1" "\<not> negative_leaf ?v" "\<not> negative_leaf ?w"
        by (simp_all add: getProp_not_negative)
      with p(4) show ?thesis by simp
    qed
    moreover from False p(1) have "distanceStep f1 f2 k (Fin d, n) = (Fin (d + p), Suc n)"
      by (simp add: distanceStep_def Let_def)
    ultimately show ?thesis using p(2) by auto
  qed
  then obtain p m where s: "distanceStep f1 f2 k (Fin d, n) = (Fin (d + p), m)"
    and pm: "0 \<le> p" "p \<le> B" "m \<le> Suc n"
    by blast
  from Cons.IH [of "d + p" m] obtain d' n'
    where f: "fold (distanceStep f1 f2) ks (Fin (d + p), m) = (Fin d', n')"
      and b: "d + p \<le> d'" "d' \<le> d + p + B * real (length ks)" "n' \<le> m + length ks"
    by blast
  have "d' \<le> d + B * real (length (k # ks))"
    using b(2) pm(2) by (simp add: algebra_simps)
  with f b pm s show ?case by auto
qed

lemma flatDistance_range:
  assumes "\<forall>v \<in> snd ` set f1. \<not> infinite_leaf v" and "\<forall>v \<in> snd ` set f2. \<not> infinite_leaf v"
    and "B = 2 \<or> (B = 1 \<and> (\<forall>v \<in> snd ` set f1. \<not> negative_leaf v) \<and> (\<forall>v \<in> snd ` set f2. \<not> negative_leaf v))"
  shows "\<exists>d. flatDistance f1 f2 = Fin d \<and> 0 \<le> d \<and> d \<le> B"
proof -
  let ?ks = "newSet (map fst f1 @ map fst f2)"
  from fold_distanceStep_range [OF assms, of ?ks 0 0] obtain d' n'
    where f: "fold (distanceStep f1 f2) ?ks (Fin 0, 0) = (Fin d', n')"
      and b: "0 \<le> d'" "d' \<le> B * real (length ?ks)" "n' \<le> length ?ks"
    by auto
  have B: "1 \<le> B" using assms(3) by auto
  show ?thesis
  proof (cases "0 < n'")
    case True
    with b(3) have "0 < length ?ks" by linarith
    then have pos: "0 < real (length ?ks)" by (simp only: of_nat_0_less_iff)
    then have "flatDistance f1 f2 = Fin (d' / real (length ?ks))"
      using True f by (simp add: flatDistance_def Let_def)
    moreover have "d' / real (length ?ks) \<le> B"
      using b(2) pos by (simp add: pos_divide_le_eq)
    moreover have "0 \<le> d' / real (length ?ks)" using b(1) by simp
    ultimately show ?thesis by blast
  next
    case False
    then have "flatDistance f1 f2 = Fin 1" using f by (simp add: flatDistance_def Let_def)
    with B show ?thesis by simp
  qed
qed


lemma defaultDistance_range_nonnegative:
  assumes "\<forall>v \<in> snd ` set (flattenObject a). \<not> infinite_leaf v \<and> \<not> negative_leaf v"
    and "\<forall>v \<in> snd ` set (flattenObject b). \<not> infinite_leaf v \<and> \<not> negative_leaf v"
  shows "\<exists>d. defaultDistance a b = Fin d \<and> 0 \<le> d \<and> d \<le> 1"
  unfolding defaultDistance_def using assms by (intro flatDistance_range) simp_all


subsection \<open>The number of selected items\<close>








subsection \<open>The calls of the distance function\<close>












subsection \<open>The cache key identifies the ordered pair of positions\<close>












subsection \<open>Every unordered pair is computed at most once\<close>




section \<open>Properties of the shuffle\<close>

lemma randomCompare_positive: "js_gt (randomCompare u) (Fin 0) \<longleftrightarrow> u < 1 / 2"
  by (simp add: randomCompare_def js_gt_def js_sub_def)

lemma length_answers: "length (answers n) = 2 ^ n"
proof -
  have "length [1 / 4, 3 / 4 :: real] = 2" by simp
  then show ?thesis unfolding answers_def length_n_lists by (simp only:)
qed

lemma answers_Suc: "answers (Suc n) = concat (map (\<lambda>us. [1 / 4 # us, 3 / 4 # us]) (answers n))"
  by (simp add: answers_def)

lemma count_pairs:
  "length (filter f (concat (map (\<lambda>us. [g us, h us]) L))) =
   length (filter (\<lambda>us. f (g us)) L) + length (filter (\<lambda>us. f (h us)) L)"
  by (induction L) simp_all

lemma leaves_Ask:
  "leaves (Ask a b pos nonpos) P (1 / 4 # us) = leaves pos P us"
  "leaves (Ask a b pos nonpos) P (3 / 4 # us) = leaves nonpos P us"
  by (simp_all add: leaves_def randomCompare_positive)

lemma prob_counts:
  "depth t \<le> n \<Longrightarrow> real (length (filter (leaves t P) (answers n))) = prob t P * 2 ^ n"
proof (induction t arbitrary: n)
  case (Done xs)
  have "filter (leaves (Done xs) P) (answers n) = (if P xs then answers n else [])"
    by (simp add: leaves_def)
  then show ?case by (simp add: length_answers)
next
  case (Ask a b pos nonpos)
  from Ask.prems obtain m where n: "n = Suc m" and d: "depth pos \<le> m" "depth nonpos \<le> m"
    by (cases n) auto
  have "length (filter (leaves (Ask a b pos nonpos) P) (answers n)) =
      length (filter (leaves pos P) (answers m)) + length (filter (leaves nonpos P) (answers m))"
    unfolding n answers_Suc count_pairs leaves_Ask ..
  then have "real (length (filter (leaves (Ask a b pos nonpos) P) (answers n))) =
      prob pos P * 2 ^ m + prob nonpos P * 2 ^ m"
    using Ask.IH(1) [OF d(1)] Ask.IH(2) [OF d(2)] by simp
  also have "\<dots> = prob (Ask a b pos nonpos) P * 2 ^ n"
    by (simp add: n algebra_simps)
  finally show ?case .
qed

lemma prob_dyadic: "\<exists>k :: nat. prob t P * 2 ^ depth t = real k"
proof (induction t)
  case (Done xs)
  show ?case
  proof (cases "P xs")
    case True
    then have "prob (Done xs) P * 2 ^ depth (Done xs) = real 1" by simp
    then show ?thesis by blast
  next
    case False
    then have "prob (Done xs) P * 2 ^ depth (Done xs) = real 0" by simp
    then show ?thesis by blast
  qed
next
  case (Ask a b pos nonpos)
  from Ask.IH obtain k l where k: "prob pos P * 2 ^ depth pos = real k"
    and l: "prob nonpos P * 2 ^ depth nonpos = real l"
    by blast
  let ?m = "max (depth pos) (depth nonpos)"
  have dp: "(2 :: real) ^ ?m = 2 ^ depth pos * 2 ^ (?m - depth pos)"
    by (simp add: power_add [symmetric])
  have dn: "(2 :: real) ^ ?m = 2 ^ depth nonpos * 2 ^ (?m - depth nonpos)"
    by (simp add: power_add [symmetric])
  have "prob (Ask a b pos nonpos) P * 2 ^ depth (Ask a b pos nonpos) =
      prob pos P * 2 ^ ?m + prob nonpos P * 2 ^ ?m"
    by (simp add: algebra_simps)
  also have "\<dots> = prob pos P * 2 ^ depth pos * 2 ^ (?m - depth pos) +
      prob nonpos P * 2 ^ depth nonpos * 2 ^ (?m - depth nonpos)"
    using dp dn by (metis mult.assoc)
  also have "\<dots> = real (k * 2 ^ (?m - depth pos) + l * 2 ^ (?m - depth nonpos))"
    unfolding k l by simp
  finally show ?case by blast
qed

lemma power_two_mod_three: "(2 :: nat) ^ d mod 3 = 1 \<or> (2 :: nat) ^ d mod 3 = 2"
proof (induction d)
  case 0
  then show ?case by simp
next
  case (Suc d)
  have "(2 :: nat) ^ Suc d mod 3 = (2 * (2 ^ d mod 3)) mod 3"
    by (simp add: mod_mult_right_eq)
  with Suc show ?case by auto
qed

lemma three_times_not_power_two: "3 * k \<noteq> (2 :: nat) ^ d"
proof
  assume "3 * k = (2 :: nat) ^ d"
  then have "(2 :: nat) ^ d mod 3 = 0" by (metis mod_mult_self1_is_0)
  with power_two_mod_three [of d] show False by simp
qed

text \<open>
  Claim C6.  The claim asks for an unbiased shuffle and rules out the shuffle by a random
  comparator, which is the one \<^verbatim>\<open>getRandomSample\<close> uses (its documentation announces a
  Fisher-Yates shuffle).  Whatever the engine's sort, the probability of an outcome of
  that shuffle is a multiple of a power of \<open>1/2\<close>, and so never \<open>1/3\<close>: of three items,
  no one is the sample of size 1 with the probability \<open>1/3\<close> that a uniform sample gives it.
\<close>

theorem random_compare_not_uniform: "prob t P \<noteq> 1 / 3"
proof
  assume a: "prob t P = 1 / 3"
  from prob_dyadic [of t P] obtain k :: nat where "prob t P * 2 ^ depth t = real k" by blast
  then have "1 / 3 * (2 :: real) ^ depth t = real k" unfolding a .
  then have "(2 :: real) ^ depth t = 3 * real k" by linarith
  then have "real ((2 :: nat) ^ depth t) = real (3 * k)" by simp
  then have "(2 :: nat) ^ depth t = 3 * k" by (simp only: of_nat_eq_iff)
  with three_times_not_power_two [of k "depth t"] show False by simp
qed

end
